theory Spec2Isabelle
  imports Main "HOL-Library.Sublist" "HOL-Library.Word"
begin

section \<open>Text and the Python string operations the script uses\<close>

text \<open>
  A Python \<^verbatim>\<open>str\<close> is a sequence of Unicode code points; a one-character string
  \<^verbatim>\<open>ch\<close> is identified with \<^verbatim>\<open>ord(ch)\<close>. The string literals of the script are
  all ASCII and are written as HOL strings, lifted by \<open>lit\<close>.
\<close>

type_synonym str = "nat list"

definition lit :: "string \<Rightarrow> str" where
  "lit s = map of_char s"

datatype error = IndexError | OSError | UnicodeDecodeError

text \<open>\<^verbatim>\<open>sub in s\<close> for strings: \<open>sub\<close> occurs in \<open>s\<close> as a contiguous run.\<close>

fun contains :: "'a list \<Rightarrow> 'a list \<Rightarrow> bool" where
  "contains [] sub = (sub = [])"
| "contains (c # cs) sub = (prefix sub (c # cs) \<or> contains cs sub)"

text \<open>
  \<^verbatim>\<open>s.replace(old, new)\<close>: the occurrences of \<open>old\<close> are found from the left and do
  not overlap; an empty \<open>old\<close> matches before every character and at the end.
\<close>

function replace :: "'a list \<Rightarrow> 'a list \<Rightarrow> 'a list \<Rightarrow> 'a list" where
  "replace [] old new = (if old = [] then new else [])"
| "replace (c # cs) old new =
     (if old = [] then new @ c # replace cs old new
      else if prefix old (c # cs) then new @ replace (drop (length old) (c # cs)) old new
      else c # replace cs old new)"
  by pat_completeness auto
termination
  by (relation "measure (\<lambda>(s, old, new). length s)") auto

text \<open>
  \<^verbatim>\<open>str.isspace\<close>, \<^verbatim>\<open>str.isalnum\<close> and \<^verbatim>\<open>str.upper\<close> on the ASCII repertoire. The
  script applies them to the result of \<^verbatim>\<open>unicodedata.name\<close> only, and a Unicode character
  name is made of \<open>A\<close>--\<open>Z\<close>, \<open>0\<close>--\<open>9\<close>, space and hyphen-minus (see \<open>ucd_wf\<close>); beyond
  ASCII these three depend on tables of the Python runtime that are not modelled.
\<close>

definition isspace :: "nat \<Rightarrow> bool" where
  "isspace c \<longleftrightarrow> c = 32 \<or> (9 \<le> c \<and> c \<le> 13) \<or> (28 \<le> c \<and> c \<le> 31)"

definition isalnum :: "nat \<Rightarrow> bool" where
  "isalnum c \<longleftrightarrow> (48 \<le> c \<and> c \<le> 57) \<or> (65 \<le> c \<and> c \<le> 90) \<or> (97 \<le> c \<and> c \<le> 122)"

definition upper :: "str \<Rightarrow> str" where
  "upper s = map (\<lambda>c. if 97 \<le> c \<and> c \<le> 122 then c - 32 else c) s"

text \<open>\<^verbatim>\<open>s.split()\<close>: the maximal runs of non-whitespace characters, in order.\<close>

function split :: "str \<Rightarrow> str list" where
  "split s =
     (case dropWhile isspace s of
        [] \<Rightarrow> []
      | c # cs \<Rightarrow> takeWhile (\<lambda>x. \<not> isspace x) (c # cs) # split (dropWhile (\<lambda>x. \<not> isspace x) cs))"
  by pat_completeness auto
termination
proof (relation "measure length", simp)
  fix s :: str and c cs
  assume d: "dropWhile isspace s = c # cs"
  have "length (dropWhile (\<lambda>x. \<not> isspace x) cs) \<le> length cs"
    by (rule length_dropWhile_le)
  moreover have "length (c # cs) \<le> length s"
    using length_dropWhile_le [of isspace s] d by simp
  ultimately show "(dropWhile (\<lambda>x. \<not> isspace x) cs, s) \<in> measure length"
    by simp
qed

declare split.simps [simp del]

section \<open>The tables of the script\<close>

text \<open>
  A dict literal is built by storing its pairs from left to right: storing under a key
  that is already there replaces the value and keeps the key's place, so a dict is kept
  as its list of items in iteration order, without duplicate keys.
\<close>

fun dict_setitem :: "('k \<times> 'v) list \<Rightarrow> 'k \<Rightarrow> 'v \<Rightarrow> ('k \<times> 'v) list" where
  "dict_setitem [] k v = [(k, v)]"
| "dict_setitem ((k', v') # d) k v =
     (if k' = k then (k', v) # d else (k', v') # dict_setitem d k v)"

definition dict :: "('k \<times> 'v) list \<Rightarrow> ('k \<times> 'v) list" where
  "dict kvs = foldl (\<lambda>d (k, v). dict_setitem d k v) [] kvs"

text \<open>The dict literal \<^verbatim>\<open>MAP\<close>, pair by pair as the source has it (158 pairs).\<close>

definition MAP_literal :: "(string \<times> string) list" where
  "MAP_literal = [
    (''[OK]'', ''[OK]''), (''[X]'', ''[X]''), (''[WARN]'', ''[WARN]''), (''[LAUNCH]'', ''[LAUNCH]''),
    (''[DONE]'', ''[DONE]''), (''[LIST]'', ''[LIST]''), (''[TOOL]'', ''[TOOL]''), (''[INFO]'', ''[INFO]''),
    (''[WEB]'', ''[WEB]''), (''[GOAL]'', ''[GOAL]''), (''[BUILD]'', ''[BUILD]''), (''[PC]'', ''[PC]''),
    (''[DESIGN]'', ''[DESIGN]''), (''[OFFICE]'', ''[OFFICE]''), (''[$]'', ''[$]''), (''[TAKE]'', ''[TAKE]''),
    (''[TEST]'', ''[TEST]''), (''[GAME]'', ''[GAME]''), (''[DOCS]'', ''[DOCS]''), (''[FIRE]'', ''[FIRE]''),
    (''[TOOLS]'', ''[TOOLS]''), (''*'', ''*''), (''[MAP]'', ''[MAP]''), (''[BOOK]'', ''[BOOK]''),
    (''[CLEAN]'', ''[CLEAN]''), (''[FIND]'', ''[FIND]''), (''[IDEA]'', ''[IDEA]''), (''[FOLDER]'', ''[FOLDER]''),
    (''[WAIT]'', ''[WAIT]''), (''[ALERT]'', ''[ALERT]''), (''[BLOCK]'', ''[BLOCK]''), (''[STATS]'', ''[STATS]''),
    (''[PIN]'', ''[PIN]''), (''[BRAIN]'', ''[BRAIN]''), (''[ROLES]'', ''[ROLES]''), (''[BUG]'', ''[BUG]''),
    (''[KEY]'', ''[KEY]''), (''[WAVE]'', ''[WAVE]''), (''[INBOX]'', ''[INBOX]''), (''[PKG]'', ''[PKG]''),
    (''[STOP]'', ''[STOP]''), (''[LOCK]'', ''[LOCK]''), (''[FREE]'', ''[FREE]''), (''[FAST]'', ''[FAST]''),
    (''[123]'', ''[123]''), (''[$$]'', ''[$$]''), (''[TAG]'', ''[TAG]''), (''[ADMIN]'', ''[ADMIN]''),
    (''->'', ''->''), (''[VIEW]'', ''[VIEW]''), (''<<'', ''<<''), (''[WIP]'', ''[WIP]''),
    (''<->'', ''<->''), (''[OUT]'', ''[OUT]''), (''+'', ''+''), (''[CAM]'', ''[CAM]''),
    (''[SHIELD]'', ''[SHIELD]''), (''[FLAG]'', ''[FLAG]''), (''[SET]'', ''[SET]''), (''[FILES]'', ''[FILES]''),
    (''[FOLDER]'', ''[FOLDER]''), (''[DOC]'', ''[DOC]''), (''TM'', ''TM''), (''[UP]'', ''[UP]''),
    (''[HANDSHAKE]'', ''[HANDSHAKE]''), (''[ANTENNA]'', ''[ANTENNA]''), (''[LINK]'', ''[LINK]''), (''[TEAM]'', ''[TEAM]''),
    (''[USER]'', ''[USER]''), (''[BANK]'', ''[BANK]''), (''[FUEL]'', ''[FUEL]''), (''[DOC]'', ''[DOC]''),
    (''[WOMAN]'', ''[WOMAN]''), (''[MAN]'', ''[MAN]''), (''[PICK]'', ''[PICK]''), (''[DOWN]'', ''[DOWN]''),
    (''[WRITE]'', ''[WRITE]''), (''[VOTE]'', ''[VOTE]''), (''[BOOM]'', ''[BOOM]''), (''[PC]'', ''[PC]''),
    (''[MAIL]'', ''[MAIL]''), (''[GOGGLES]'', ''[GOGGLES]''), (''[HAMMER]'', ''[HAMMER]''), (''[BOT]'', ''[BOT]''),
    (''[DISK]'', ''[DISK]''), (''[?]'', ''[?]''), (''<<'', ''<<''), (''<'', ''<''),
    (''>'', ''>''), (''>>'', ''>>''), (''[SCALES]'', ''[SCALES]''), (''[SWORDS]'', ''[SWORDS]''),
    (''[TIME]'', ''[TIME]''), (''[BOOKMARK]'', ''[BOOKMARK]''), (''||'', ''||''), (''[PHONE]'', ''[PHONE]''),
    (''[CRYSTAL]'', ''[CRYSTAL]''), (''[COURT]'', ''[COURT]''), (''[TROPHY]'', ''[TROPHY]''), (''[UP]'', ''[UP]''),
    (''[PLUG]'', ''[PLUG]''), (''[CARD]'', ''[CARD]''), (''[PHONE]'', ''[PHONE]''), (''[SPARK]'', ''[SPARK]''),
    (''[ALARM]'', ''[ALARM]''), (''[CHAT]'', ''[CHAT]''), (''[LOCK]'', ''[LOCK]''), (''[10]'', ''[10]''),
    (''*'', ''*''), (''[PA]'', ''[PA]''), (''[JOKER]'', ''[JOKER]''), (''[LIGHTS]'', ''[LIGHTS]''),
    (''[PUZZLE]'', ''[PUZZLE]''), (''[SHUFFLE]'', ''[SHUFFLE]''), (''[REPEAT]'', ''[REPEAT]''), (''[DNA]'', ''[DNA]''),
    (''[COMPASS]'', ''[COMPASS]''), (''[PIN]'', ''[PIN]''), (''[TELESCOPE]'', ''[TELESCOPE]''), (''o'', ''o''),
    (''[TIMER]'', ''[TIMER]''), (''[WEB]'', ''[WEB]''), (''[PEN]'', ''[PEN]''), (''[TRASH]'', ''[TRASH]''),
    (''*'', ''*''), (''->'', ''->''), (''[ABC]'', ''[ABC]''), (''<->'', ''<->''),
    (''o'', ''o''), (''o'', ''o''), (''o'', ''o''), (''o'', ''o''),
    (''o'', ''o''), (''[COIN]'', ''[COIN]''), (''[FACTORY]'', ''[FACTORY]''), (''[NEW]'', ''[NEW]''),
    (''[BRICK]'', ''[BRICK]''), (''[SAT]'', ''[SAT]''), (''[EARTH]'', ''[EARTH]''), (''[BRIDGE]'', ''[BRIDGE]''),
    (''[FX]'', ''[FX]''), (''[DICE]'', ''[DICE]''), (''[CAM]'', ''[CAM]''), (''[MENU]'', ''[MENU]''),
    (''~'', ''~''), (''[UNLOCK]'', ''[UNLOCK]''), (''[SKULL]'', ''[SKULL]''), (''[SUN]'', ''[SUN]''),
    (''[MOON]'', ''[MOON]''), (''[OUTBOX]'', ''[OUTBOX]''), (''[SHRUG]'', ''[SHRUG]''), (''<-'', ''<-''),
    (''[HOME]'', ''[HOME]''), (''[ ]'', ''[ ]''), (''[GREEN]'', ''[GREEN]''), (''[BANDAGE]'', ''[BANDAGE]''),
    (''[BLUE]'', ''[BLUE]''), (''[ID]'', ''[ID]'')
  ]"

definition MAP :: "(str \<times> str) list" where
  "MAP = dict (map (\<lambda>(k, v). (lit k, lit v)) MAP_literal)"

definition REMOVE_CHARS :: "str list" where
  "REMOVE_CHARS = [[0xFE0F]]"

section \<open>The transformer\<close>

text \<open>
  \<^verbatim>\<open>unicodedata.name\<close> belongs to the Python runtime, not to the script: the name table
  is a parameter, a finite table from code points to names. A code point without an entry
  is one for which \<^verbatim>\<open>ud.name\<close> raises \<^verbatim>\<open>ValueError\<close>.
\<close>

type_synonym ucd = "(nat \<times> str) list"

definition ud_name :: "ucd \<Rightarrow> nat \<Rightarrow> str option" where
  "ud_name ud ch = map_of ud ch"

text \<open>
  The syntax of Unicode character names: every name is over \<open>A\<close>--\<open>Z\<close>, \<open>0\<close>--\<open>9\<close>, space
  and hyphen-minus, and is not blank.
\<close>

definition name_char :: "nat \<Rightarrow> bool" where
  "name_char c \<longleftrightarrow> (65 \<le> c \<and> c \<le> 90) \<or> (48 \<le> c \<and> c \<le> 57) \<or> c = 32 \<or> c = 45"

definition ucd_wf :: "ucd \<Rightarrow> bool" where
  "ucd_wf ud = list_all (\<lambda>(c, name). list_all name_char name \<and> list_ex (\<lambda>x. x \<noteq> 32) name) ud"

definition pictographic :: "nat \<Rightarrow> bool" where
  "pictographic code \<longleftrightarrow>
     (0x1F000 \<le> code \<and> code \<le> 0x1FAFF)
     \<or> (0x2600 \<le> code \<and> code \<le> 0x27BF)
     \<or> (0x2300 \<le> code \<and> code \<le> 0x23FF)
     \<or> (0x2190 \<le> code \<and> code \<le> 0x21FF)
     \<or> code \<in> {0x2122, 0x2139}"

text \<open>
  The local function \<^verbatim>\<open>fallback\<close>. \<^verbatim>\<open>ValueError\<close> is caught and gives the character
  back; \<^verbatim>\<open>name.split()[0]\<close> raises \<^verbatim>\<open>IndexError\<close> on a blank name, which nothing catches.
\<close>

definition fallback :: "ucd \<Rightarrow> nat \<Rightarrow> error + str" where
  "fallback ud ch =
     (case ud_name ud ch of
        None \<Rightarrow> Inr [ch]
      | Some name \<Rightarrow>
          (case split name of
             [] \<Rightarrow> Inl IndexError
           | word # _ \<Rightarrow>
               let token = upper (filter isalnum word);
                   token = (if token = [] then lit ''SYM'' else token)
               in Inr (lit ''['' @ token @ lit '']'')))"

text \<open>
  The loop over the characters of the text, with the list \<^verbatim>\<open>out_chars\<close> it appends to.
\<close>

fun scan :: "ucd \<Rightarrow> str \<Rightarrow> str list \<Rightarrow> error + str list" where
  "scan ud [] out_chars = Inr out_chars"
| "scan ud (ch # rest) out_chars =
     (case map_of MAP [ch] of
        Some v \<Rightarrow> scan ud rest (out_chars @ [v])
      | None \<Rightarrow>
          if [ch] \<in> set REMOVE_CHARS then scan ud rest out_chars
          else if pictographic ch then
            (case fallback ud ch of
               Inl e \<Rightarrow> Inl e
             | Inr s \<Rightarrow> scan ud rest (out_chars @ [s]))
          else scan ud rest (out_chars @ [[ch]]))"

definition replace_in_text :: "ucd \<Rightarrow> str \<Rightarrow> error + str" where
  "replace_in_text ud text =
     (if text = [] then Inr text
      else
        let text = fold (\<lambda>rc t. replace t rc []) REMOVE_CHARS text;
            text = fold (\<lambda>(k, v) t. if contains t k then replace t k v else t) MAP text
        in case scan ud text [] of
             Inl e \<Rightarrow> Inl e
           | Inr out_chars \<Rightarrow> Inr (concat out_chars))"

section \<open>The classifier\<close>

text \<open>
  \<^verbatim>\<open>os.path.splitext\<close> on a POSIX path: the extension starts at the last dot of the
  last component, unless only dots precede it there. \<open>rfind\<close> is \<^verbatim>\<open>str.rfind\<close> for one
  character, \<open>-1\<close> when it does not occur.
\<close>

definition rfind :: "str \<Rightarrow> nat \<Rightarrow> int" where
  "rfind p c =
     (case filter (\<lambda>i. p ! i = c) (rev [0..<length p]) of
        [] \<Rightarrow> - 1
      | i # _ \<Rightarrow> int i)"

function splitext_loop :: "str \<Rightarrow> nat \<Rightarrow> nat \<Rightarrow> str \<times> str" where
  "splitext_loop p filenameIndex dotIndex =
     (if filenameIndex < dotIndex then
        (if take 1 (drop filenameIndex p) \<noteq> lit ''.'' then (take dotIndex p, drop dotIndex p)
         else splitext_loop p (filenameIndex + 1) dotIndex)
      else (p, []))"
  by pat_completeness auto
termination
  by (relation "measure (\<lambda>(p, filenameIndex, dotIndex). dotIndex - filenameIndex)") auto

declare splitext_loop.simps [simp del]

definition splitext :: "str \<Rightarrow> str \<times> str" where
  "splitext p =
     (let sepIndex = rfind p 47; dotIndex = rfind p 46
      in if dotIndex > sepIndex then splitext_loop p (nat (sepIndex + 1)) (nat dotIndex)
         else (p, []))"

definition TEXT_EXTS :: "str list" where
  "TEXT_EXTS = map lit [
    ''.md'', ''.txt'', ''.ts'', ''.tsx'', ''.js'', ''.jsx'', ''.json'', ''.jsonc'',
    ''.svelte'', ''.html'', ''.css'', ''.scss'', ''.sass'', ''.less'',
    ''.yaml'', ''.yml'', ''.toml'', ''.ini'', ''.conf'',
    ''.sh'', ''.bash'', ''.zsh'', ''.fish'',
    ''.py'', ''.rb'', ''.go'', ''.rs'', ''.java'', ''.kt'', ''.swift'',
    ''.c'', ''.h'', ''.cc'', ''.cpp'', ''.m'', ''.mm'',
    ''.csv'']"

definition bin_exts :: "str list" where
  "bin_exts = map lit [
    ''.png'', ''.jpg'', ''.jpeg'', ''.gif'', ''.webp'', ''.pdf'', ''.woff'', ''.woff2'',
    ''.ttf'', ''.otf'', ''.ico'', ''.mp4'', ''.mp3'']"

text \<open>
  A file on disk: its bytes, and whether opening it for reading or for writing succeeds.
\<close>

type_synonym byte = "8 word"

record disk_file =
  readable :: bool
  writable :: bool
  content :: "byte list"

text \<open>\<^verbatim>\<open>open(path, "rb")\<close> followed by \<^verbatim>\<open>f.read(n)\<close>.\<close>

definition read_bytes :: "disk_file \<Rightarrow> nat \<Rightarrow> error + byte list" where
  "read_bytes f n = (if readable f then Inr (take n (content f)) else Inl OSError)"

text \<open>
  What the script takes from the Python runtime and its Unicode tables: \<^verbatim>\<open>str.lower\<close>
  (applied to an extension of any path), the codec of a text-mode \<^verbatim>\<open>open\<close> with
  \<^verbatim>\<open>encoding="utf-8"\<close> (\<open>None\<close> when strict decoding fails), and the name table.
\<close>

record runtime =
  str_lower :: "str \<Rightarrow> str"
  utf8_decode :: "byte list \<Rightarrow> str option"
  utf8_encode :: "str \<Rightarrow> byte list"
  unicodedata :: ucd

text \<open>
  \<^verbatim>\<open>looks_text(path)\<close>; \<open>f\<close> is the file that \<open>path\<close> names. Every exception of the
  \<^verbatim>\<open>try\<close> block is caught.
\<close>

definition looks_text :: "(str \<Rightarrow> str) \<Rightarrow> str \<Rightarrow> disk_file \<Rightarrow> bool" where
  "looks_text lower path f =
     (let ext = snd (splitext path)
      in if lower ext \<in> set TEXT_EXTS then True
         else if lower ext \<in> set bin_exts then False
         else (case read_bytes f 2048 of
                 Inl e \<Rightarrow> False
               | Inr chunk \<Rightarrow> if 0 \<in> set chunk then False else True))"

section \<open>The walker\<close>

definition EXCLUDE_DIRS :: "str list" where
  "EXCLUDE_DIRS = map lit [
    ''.git'', ''node_modules'', ''build'', ''dist'', ''.next'', ''.svelte-kit'', ''out'',
    ''venv'', ''.venv'', ''target'', ''coverage'', ''tmp'']"

text \<open>
  The file system. The directory tree gives names to files, as \<^verbatim>\<open>os.walk\<close> yields them:
  for each directory its files and its subdirectories, by name. A name stands for an
  inode, and the disk holds one file per inode: two names (two hard links, or a symbolic
  link and its target) can stand for the same inode, and what is written through one name
  is what is read through the other. The walker creates and removes no name, so the tree
  stays as it is and only the disk changes.
\<close>

type_synonym inode = nat

datatype dir = Dir (files: "(str \<times> inode) list") (dirs: "(str \<times> dir) list")

text \<open>
  What a run changes: the disk, the two counters of \<^verbatim>\<open>main\<close>, and the lines printed.
\<close>

record state =
  disk :: "inode \<Rightarrow> disk_file"
  changed :: nat
  scanned :: nat
  stdout :: "str list"

text \<open>
  \<^verbatim>\<open>os.path.join\<close> for a relative second part, and \<^verbatim>\<open>os.path.relpath\<close> for a path that
  lies below \<open>start\<close>, the only case the walker produces.
\<close>

definition join :: "str \<Rightarrow> str \<Rightarrow> str" where
  "join a b = (if a = [] \<or> last a = 47 then a @ b else a @ [47] @ b)"

definition relpath :: "str \<Rightarrow> str \<Rightarrow> str" where
  "relpath path start =
     (if prefix start path then dropWhile (\<lambda>c. c = 47) (drop (length start) path) else path)"



definition read_text :: "runtime \<Rightarrow> disk_file \<Rightarrow> error + str" where
  "read_text R f =
     (if \<not> readable f then Inl OSError
      else case utf8_decode R (content f) of
             None \<Rightarrow> Inl UnicodeDecodeError
           | Some t \<Rightarrow> Inr t)"

text \<open>
  \<^verbatim>\<open>open(path, "w", encoding="utf-8")\<close> and \<^verbatim>\<open>f.write(t)\<close>, for the inode \<open>i\<close> that the
  path names: the write goes to the inode.
\<close>

definition write_text ::
    "runtime \<Rightarrow> (inode \<Rightarrow> disk_file) \<Rightarrow> inode \<Rightarrow> str \<Rightarrow> error + (inode \<Rightarrow> disk_file)" where
  "write_text R d i t =
     (if writable (d i) then Inr (d(i := (d i)\<lparr>content := utf8_encode R t\<rparr>)) else Inl OSError)"

text \<open>
  The body of \<^verbatim>\<open>for fn in files\<close> for the file at \<open>path\<close>, whose inode is \<open>i\<close>. The read
  is inside a \<^verbatim>\<open>try\<close> that catches everything; the transformer and the write are not,
  and an exception that leaves the walker is returned with the state it leaves behind.
\<close>

definition process_file ::
    "runtime \<Rightarrow> str \<Rightarrow> str \<Rightarrow> inode \<Rightarrow> state \<Rightarrow> (error \<times> state) + state" where
  "process_file R ROOT path i st =
     (if \<not> looks_text (str_lower R) path (disk st i) then Inr st
      else case read_text R (disk st i) of
        Inl e \<Rightarrow> Inr st
      | Inr t \<Rightarrow>
          (case replace_in_text (unicodedata R) t of
             Inl e \<Rightarrow> Inl (e, st)
           | Inr new_text \<Rightarrow>
               let st = st\<lparr>scanned := scanned st + 1\<rparr>
               in if new_text \<noteq> t then
                    (case write_text R (disk st) i new_text of
                       Inl e \<Rightarrow> Inl (e, st)
                     | Inr d \<Rightarrow>
                         Inr (st\<lparr>disk := d, changed := changed st + 1,
                                 stdout := stdout st @ [lit ''Rewrote: '' @ relpath path ROOT]\<rparr>))
                  else Inr st))"

fun walk_files ::
    "runtime \<Rightarrow> str \<Rightarrow> str \<Rightarrow> (str \<times> inode) list \<Rightarrow> state \<Rightarrow> (error \<times> state) + state" where
  "walk_files R ROOT root [] st = Inr st"
| "walk_files R ROOT root ((fn, i) # fs) st =
     (case process_file R ROOT (join root fn) i st of
        Inl x \<Rightarrow> Inl x
      | Inr st' \<Rightarrow> walk_files R ROOT root fs st')"

text \<open>
  The pruning test of \<^verbatim>\<open>dirs[:] = [d for d in dirs if ...]\<close>, negated: the
  subdirectories that \<^verbatim>\<open>os.walk\<close> does not descend into.
\<close>

definition pruned :: "str \<Rightarrow> bool" where
  "pruned d \<longleftrightarrow> \<not> (d \<notin> set EXCLUDE_DIRS \<and> \<not> prefix (lit ''.'') d)"

text \<open>
  \<^verbatim>\<open>for root, dirs, files in os.walk(ROOT)\<close>, top-down: the files of a directory, then
  each subdirectory that is left in \<open>dirs\<close>, with all below it, in order.
\<close>

fun walk :: "runtime \<Rightarrow> str \<Rightarrow> str \<Rightarrow> dir \<Rightarrow> state \<Rightarrow> (error \<times> state) + state"
  and walk_dirs ::
    "runtime \<Rightarrow> str \<Rightarrow> str \<Rightarrow> (str \<times> dir) list \<Rightarrow> state \<Rightarrow> (error \<times> state) + state" where
  "walk R ROOT root (Dir fs ds) st =
     (case walk_files R ROOT root fs st of
        Inl x \<Rightarrow> Inl x
      | Inr st' \<Rightarrow> walk_dirs R ROOT root ds st')"
| "walk_dirs R ROOT root [] st = Inr st"
| "walk_dirs R ROOT root ((d, sub) # ds) st =
     (if pruned d then walk_dirs R ROOT root ds st
      else
        (case walk R ROOT (join root d) sub st of
           Inl x \<Rightarrow> Inl x
         | Inr st' \<Rightarrow> walk_dirs R ROOT root ds st'))"


section \<open>Specification-level notions\<close>

text \<open>
  The shape of a fallback token: \<open>[\<close>, then one or more characters of \<open>A\<close>--\<open>Z\<close> and
  \<open>0\<close>--\<open>9\<close>, then \<open>]\<close>.
\<close>

definition upper_alnum :: "nat \<Rightarrow> bool" where
  "upper_alnum c \<longleftrightarrow> (48 \<le> c \<and> c \<le> 57) \<or> (65 \<le> c \<and> c \<le> 90)"

definition token_segment :: "str \<Rightarrow> bool" where
  "token_segment seg =
     (case seg of
        [] \<Rightarrow> False
      | b # r \<Rightarrow> b = 91 \<and> r \<noteq> [] \<and> last r = 93 \<and> butlast r \<noteq> [] \<and> list_all upper_alnum (butlast r))"

text \<open>
  The simpler transformer: delete the characters of the Removal Set, then apply the
  fallback to each character of the pictographic ranges and keep every other character.
\<close>

fun fallback_pass :: "ucd \<Rightarrow> str \<Rightarrow> error + str" where
  "fallback_pass ud [] = Inr []"
| "fallback_pass ud (ch # rest) =
     (if pictographic ch then
        (case fallback ud ch of
           Inl e \<Rightarrow> Inl e
         | Inr s \<Rightarrow> (case fallback_pass ud rest of Inl e \<Rightarrow> Inl e | Inr r \<Rightarrow> Inr (s @ r)))
      else (case fallback_pass ud rest of Inl e \<Rightarrow> Inl e | Inr r \<Rightarrow> Inr (ch # r)))"

definition transform_simple :: "ucd \<Rightarrow> str \<Rightarrow> error + str" where
  "transform_simple ud s = fallback_pass ud (filter (\<lambda>c. [c] \<notin> set REMOVE_CHARS) s)"

text \<open>
  A character that the transformer leaves in place: not the variation selector, and in the
  pictographic ranges only if it has no name.
\<close>

definition settled :: "ucd \<Rightarrow> nat \<Rightarrow> bool" where
  "settled ud x \<longleftrightarrow> x \<noteq> 0xFE0F \<and> (pictographic x \<longrightarrow> ud_name ud x = None)"


text \<open>
  The part of a directory tree that the walker goes through: the tree without the
  subdirectories that are pruned; the pruned subdirectories themselves, each with its
  path and with all that is below it; and the inodes that the files of a tree stand for.
\<close>

fun visited :: "dir \<Rightarrow> dir"
  and visited_dirs :: "(str \<times> dir) list \<Rightarrow> (str \<times> dir) list" where
  "visited (Dir fs ds) = Dir fs (visited_dirs ds)"
| "visited_dirs [] = []"
| "visited_dirs ((d, sub) # ds) =
     (if pruned d then visited_dirs ds else (d, visited sub) # visited_dirs ds)"

fun skipped :: "dir \<Rightarrow> (str list \<times> dir) list"
  and skipped_dirs :: "(str \<times> dir) list \<Rightarrow> (str list \<times> dir) list" where
  "skipped (Dir fs ds) = skipped_dirs ds"
| "skipped_dirs [] = []"
| "skipped_dirs ((d, sub) # ds) =
     (if pruned d then ([d], sub) # skipped_dirs ds
      else map (\<lambda>(p, x). (d # p, x)) (skipped sub) @ skipped_dirs ds)"

fun inodes :: "dir \<Rightarrow> inode list"
  and inodes_dirs :: "(str \<times> dir) list \<Rightarrow> inode list" where
  "inodes (Dir fs ds) = map snd fs @ inodes_dirs ds"
| "inodes_dirs [] = []"
| "inodes_dirs ((d, sub) # ds) = inodes sub @ inodes_dirs ds"

text \<open>The state a run leaves behind, whether it ends or is ended by an exception.\<close>

definition final_state :: "(error \<times> state) + state \<Rightarrow> state" where
  "final_state r = (case r of Inl (e, st) \<Rightarrow> st | Inr st \<Rightarrow> st)"

section \<open>A runtime and a directory tree to run the definitions on\<close>

text \<open>
  A few rows of the Unicode name table, for running the definitions on concrete input.
  In the table of the Python runtime, too, \<open>U+1F02C\<close> has no name: it is unassigned.
\<close>

definition ucd_excerpt :: ucd where
  "ucd_excerpt = [(0x1F680, lit ''ROCKET''), (0x2122, lit ''TRADE MARK SIGN''),
     (0x2192, lit ''RIGHTWARDS ARROW''), (0x2705, lit ''WHITE HEAVY CHECK MARK'')]"

text \<open>
  An instance of the runtime: \<^verbatim>\<open>str.lower\<close> on ASCII text, strict UTF-8 with the newline
  translation of text mode on a POSIX system (\<open>\r\n\<close> and \<open>\r\<close> are read as \<open>\n\<close>), and the
  rows of the name table above.
\<close>

definition ascii_lower :: "str \<Rightarrow> str" where
  "ascii_lower s = map (\<lambda>c. if 65 \<le> c \<and> c \<le> 90 then c + 32 else c) s"

definition cont :: "nat \<Rightarrow> bool" where
  "cont b \<longleftrightarrow> 0x80 \<le> b \<and> b \<le> 0xBF"

fun decode_utf8 :: "nat list \<Rightarrow> str option" where
  "decode_utf8 [] = Some []"
| "decode_utf8 (b # bs) =
     (if b < 0x80 then map_option ((#) b) (decode_utf8 bs)
      else if 0xC2 \<le> b \<and> b \<le> 0xDF then
        (case bs of
           b1 # r \<Rightarrow>
             if cont b1 then map_option ((#) ((b - 0xC0) * 64 + (b1 - 0x80))) (decode_utf8 r)
             else None
         | _ \<Rightarrow> None)
      else if 0xE0 \<le> b \<and> b \<le> 0xEF then
        (case bs of
           b1 # b2 # r \<Rightarrow>
             let cp = (b - 0xE0) * 4096 + (b1 - 0x80) * 64 + (b2 - 0x80)
             in if cont b1 \<and> cont b2 \<and> 0x800 \<le> cp \<and> \<not> (0xD800 \<le> cp \<and> cp \<le> 0xDFFF)
                then map_option ((#) cp) (decode_utf8 r) else None
         | _ \<Rightarrow> None)
      else if 0xF0 \<le> b \<and> b \<le> 0xF4 then
        (case bs of
           b1 # b2 # b3 # r \<Rightarrow>
             let cp = (b - 0xF0) * 262144 + (b1 - 0x80) * 4096 + (b2 - 0x80) * 64 + (b3 - 0x80)
             in if cont b1 \<and> cont b2 \<and> cont b3 \<and> 0x10000 \<le> cp \<and> cp \<le> 0x10FFFF
                then map_option ((#) cp) (decode_utf8 r) else None
         | _ \<Rightarrow> None)
      else None)"

definition encode_utf8 :: "nat \<Rightarrow> nat list" where
  "encode_utf8 cp =
     (if cp < 0x80 then [cp]
      else if cp < 0x800 then [0xC0 + cp div 64, 0x80 + cp mod 64]
      else if cp < 0x10000 then [0xE0 + cp div 4096, 0x80 + cp div 64 mod 64, 0x80 + cp mod 64]
      else [0xF0 + cp div 262144, 0x80 + cp div 4096 mod 64, 0x80 + cp div 64 mod 64,
            0x80 + cp mod 64])"

definition text_decode :: "byte list \<Rightarrow> str option" where
  "text_decode bs =
     map_option (\<lambda>t. replace (replace t [13, 10] [10]) [13] [10]) (decode_utf8 (map unat bs))"

definition text_encode :: "str \<Rightarrow> byte list" where
  "text_encode t = map of_nat (concat (map encode_utf8 t))"

definition sample_runtime :: runtime where
  "sample_runtime =
     \<lparr>str_lower = ascii_lower, utf8_decode = text_decode, utf8_encode = text_encode,
      unicodedata = ucd_excerpt\<rparr>"

text \<open>
  A small tree and its disk: \<open>README.md\<close> (inode 1) holds \<open>Go\<close>, a space and \<open>U+1F680\<close>;
  \<open>icon.bin\<close> (inode 2) is not UTF-8; \<open>node_modules/x.md\<close> (inode 3) holds \<open>U+1F680\<close>;
  \<open>docs/a.txt\<close> (inode 4) holds \<open>ok\<close>.
\<close>

definition sample_file :: "byte list \<Rightarrow> disk_file" where
  "sample_file bs = \<lparr>readable = True, writable = True, content = bs\<rparr>"

definition sample_tree :: dir where
  "sample_tree =
     Dir [(lit ''README.md'', 1), (lit ''icon.bin'', 2)]
         [(lit ''node_modules'', Dir [(lit ''x.md'', 3)] []),
          (lit ''docs'', Dir [(lit ''a.txt'', 4)] [])]"

definition sample_disk :: "inode \<Rightarrow> disk_file" where
  "sample_disk =
     (\<lambda>i. sample_file [])
       (1 := sample_file [0x47, 0x6F, 0x20, 0xF0, 0x9F, 0x9A, 0x80],
        2 := sample_file [0xFF, 0xFE],
        3 := sample_file [0xF0, 0x9F, 0x9A, 0x80],
        4 := sample_file [0x6F, 0x6B])"


text \<open>
  A tree with a hard link: \<open>a.md\<close> and \<open>node_modules/x.md\<close> are two names of inode 1,
  which holds \<open>U+2705\<close>.
\<close>

definition linked_tree :: dir where
  "linked_tree = Dir [(lit ''a.md'', 1)] [(lit ''node_modules'', Dir [(lit ''x.md'', 1)] [])]"

definition linked_disk :: "inode \<Rightarrow> disk_file" where
  "linked_disk = (\<lambda>i. sample_file [])(1 := sample_file [0xE2, 0x9C, 0x85])"

section \<open>Lemmas about the tables and the string operations\<close>

lemma replace_same: "replace s k k = s"
proof (induction "length s" arbitrary: s rule: less_induct)
  case less
  show ?case
  proof (cases s)
    case Nil
    then show ?thesis by simp
  next
    case (Cons c cs)
    show ?thesis
    proof (cases "k \<noteq> [] \<and> prefix k (c # cs)")
      case True
      then obtain zs where zs: "c # cs = k @ zs" by (auto simp: prefix_def)
      have d: "drop (length k) (c # cs) = zs" using zs by simp
      have "length zs < length s" using zs True Cons by (cases k) auto
      then have r: "replace zs k k = zs" by (rule less)
      have "replace (c # cs) k k = k @ replace (drop (length k) (c # cs)) k k"
        using True by simp
      also have "\<dots> = k @ zs" by (simp only: d r)
      finally show ?thesis using zs Cons by simp
    next
      case False
      have "replace cs k k = cs" using less [of cs] Cons by simp
      with False Cons show ?thesis by auto
    qed
  qed
qed

lemma replace_remove: "replace s [c] [] = filter (\<lambda>x. x \<noteq> c) s"
  by (induction s) auto

lemma dict_setitem_subset: "set (dict_setitem d k v) \<subseteq> insert (k, v) (set d)"
  by (induction d k v rule: dict_setitem.induct) auto

lemma foldl_setitem_subset:
  "set (foldl (\<lambda>d (k, v). dict_setitem d k v) d kvs) \<subseteq> set d \<union> set kvs"
proof (induction kvs arbitrary: d)
  case Nil
  then show ?case by simp
next
  case (Cons kv kvs)
  obtain k v where kv: "kv = (k, v)" by (cases kv)
  show ?case
    using Cons.IH [of "dict_setitem d k v"] dict_setitem_subset [of d k v] kv
    by auto
qed

lemma dict_subset: "set (dict kvs) \<subseteq> set kvs"
  using foldl_setitem_subset [of "[]" kvs] by (simp add: dict_def)

lemma dict_setitem_keys: "fst ` set (dict_setitem d k v) = insert k (fst ` set d)"
  by (induction d k v rule: dict_setitem.induct) auto

lemma foldl_setitem_keys:
  "fst ` set (foldl (\<lambda>d (k, v). dict_setitem d k v) d kvs) = fst ` set d \<union> fst ` set kvs"
proof (induction kvs arbitrary: d)
  case Nil
  then show ?case by simp
next
  case (Cons kv kvs)
  obtain k v where kv: "kv = (k, v)" by (cases kv)
  show ?case
    using Cons.IH [of "dict_setitem d k v"] dict_setitem_keys [of d k v] kv
    by auto
qed

lemma dict_keys: "fst ` set (dict kvs) = fst ` set kvs"
  using foldl_setitem_keys [of "[]" kvs] by (simp add: dict_def)

lemma MAP_literal_id: "list_all (\<lambda>(k, v). k = v) MAP_literal"
  by (simp add: MAP_literal_def)

lemma MAP_id: "(k, v) \<in> set MAP \<Longrightarrow> v = k"
  using dict_subset [of "map (\<lambda>(k, v). (lit k, lit v)) MAP_literal"] MAP_literal_id
  by (auto simp: MAP_def list_all_iff)

lemma lit_small: "c \<in> set (lit s) \<Longrightarrow> c < 256"
  by (auto simp: lit_def)

lemma MAP_small: "(k, v) \<in> set MAP \<Longrightarrow> c \<in> set k \<Longrightarrow> c < 256"
  using dict_subset [of "map (\<lambda>(k, v). (lit k, lit v)) MAP_literal"]
  by (auto simp: MAP_def dest: lit_small)

lemma fold_replace_id:
  "\<forall>(k, v) \<in> set m. v = k \<Longrightarrow>
   fold (\<lambda>(k, v) t. if contains t k then replace t k v else t) m s = s"
  by (induction m arbitrary: s) (auto simp: replace_same)


lemma remove_pass:
  "fold (\<lambda>rc t. replace t rc []) REMOVE_CHARS s = filter (\<lambda>c. [c] \<notin> set REMOVE_CHARS) s"
  by (simp add: REMOVE_CHARS_def replace_remove)

lemma MAP_pass: "fold (\<lambda>(k, v) t. if contains t k then replace t k v else t) MAP s = s"
  by (rule fold_replace_id) (auto dest: MAP_id)

lemma MAP_lookup: "map_of MAP [ch] = Some v \<Longrightarrow> v = [ch] \<and> ch < 256"
  by (auto dest!: map_of_SomeD dest: MAP_id MAP_small)

lemma pictographic_large: "pictographic c \<Longrightarrow> 256 \<le> c"
  by (auto simp: pictographic_def)

lemma pictographic_not_key: "pictographic c \<Longrightarrow> map_of MAP [c] = None"
proof (cases "map_of MAP [c]")
  case None
  then show ?thesis .
next
  case (Some v)
  assume "pictographic c"
  with MAP_lookup [OF Some] pictographic_large [of c] show ?thesis by simp
qed

lemma scan_fallback_pass:
  "\<forall>c \<in> set s. [c] \<notin> set REMOVE_CHARS \<Longrightarrow>
   (case scan ud s acc of Inl e \<Rightarrow> Inl e | Inr out_chars \<Rightarrow> Inr (concat out_chars))
     = (case fallback_pass ud s of Inl e \<Rightarrow> Inl e | Inr r \<Rightarrow> Inr (concat acc @ r))"
proof (induction s arbitrary: acc)
  case Nil
  then show ?case by simp
next
  case (Cons ch rest)
  then have IH: "\<And>acc. (case scan ud rest acc of Inl e \<Rightarrow> Inl e | Inr out_chars \<Rightarrow> Inr (concat out_chars))
     = (case fallback_pass ud rest of Inl e \<Rightarrow> Inl e | Inr r \<Rightarrow> Inr (concat acc @ r))"
    and ch: "[ch] \<notin> set REMOVE_CHARS" by simp_all
  show ?case
  proof (cases "map_of MAP [ch]")
    case (Some v)
    then have v: "v = [ch]" and np: "\<not> pictographic ch"
      using MAP_lookup [OF Some] pictographic_not_key [of ch] by auto
    show ?thesis using Some v np IH [of "acc @ [[ch]]"]
      by (simp split: sum.splits)
  next
    case None
    show ?thesis
    proof (cases "pictographic ch")
      case True
      show ?thesis
      proof (cases "fallback ud ch")
        case (Inl e)
        with None ch True show ?thesis by simp
      next
        case (Inr p)
        with None ch True IH [of "acc @ [p]"] show ?thesis
          by (simp split: sum.splits)
      qed
    next
      case False
      with None ch IH [of "acc @ [[ch]]"] show ?thesis
        by (simp split: sum.splits)
    qed
  qed
qed

lemma replace_in_text_simple: "replace_in_text ud s = transform_simple ud s"
proof (cases "s = []")
  case True
  then show ?thesis by (simp add: replace_in_text_def transform_simple_def)
next
  case False
  have "\<forall>c \<in> set (filter (\<lambda>c. [c] \<notin> set REMOVE_CHARS) s). [c] \<notin> set REMOVE_CHARS"
    by simp
  from scan_fallback_pass [OF this, of ud "[]"] False show ?thesis
    by (simp add: replace_in_text_def transform_simple_def remove_pass MAP_pass split: sum.splits)
qed

lemma name_char_not_space: "name_char x \<Longrightarrow> x \<noteq> 32 \<Longrightarrow> \<not> isspace x"
  by (auto simp: name_char_def isspace_def)

lemma split_eq_Nil: "split s = [] \<Longrightarrow> list_all isspace s"
proof -
  assume a: "split s = []"
  have "dropWhile isspace s = []"
  proof (cases "dropWhile isspace s")
    case Nil then show ?thesis .
  next
    case (Cons c cs)
    have "split s \<noteq> []" by (subst split.simps) (simp only: Cons list.case list.distinct not_False_eq_True)
    with a show ?thesis by simp
  qed
  then show ?thesis by (simp add: list_all_iff)
qed

lemma split_first_word: "split s = w # ws \<Longrightarrow> set w \<subseteq> set s"
proof -
  assume a: "split s = w # ws"
  show ?thesis
  proof (cases "dropWhile isspace s")
    case Nil
    have "split s = []" by (subst split.simps) (simp only: Nil list.case)
    with a show ?thesis by simp
  next
    case (Cons c cs)
    have "split s = takeWhile (\<lambda>x. \<not> isspace x) (c # cs) # split (dropWhile (\<lambda>x. \<not> isspace x) cs)"
      by (subst split.simps) (simp only: Cons list.case)
    with a have "w = takeWhile (\<lambda>x. \<not> isspace x) (c # cs)" by simp
    then have "set w \<subseteq> set (c # cs)" using set_takeWhileD by fastforce
    also have "\<dots> \<subseteq> set s" using set_dropWhileD [of _ isspace s] Cons by auto
    finally show ?thesis .
  qed
qed

lemma ucd_wf_name:
  "ucd_wf ud \<Longrightarrow> ud_name ud ch = Some name \<Longrightarrow>
   list_all name_char name \<and> (\<exists>x \<in> set name. x \<noteq> 32)"
  by (auto simp: ucd_wf_def ud_name_def list_all_iff list_ex_iff dest!: map_of_SomeD)

lemma upper_alnum_token:
  "\<forall>x \<in> set w. name_char x \<Longrightarrow> list_all upper_alnum (upper (filter isalnum w))"
  by (auto simp: list_all_iff upper_def name_char_def isalnum_def upper_alnum_def)

lemma token_segment_brackets:
  "tok \<noteq> [] \<Longrightarrow> list_all upper_alnum tok \<Longrightarrow> token_segment (lit ''['' @ tok @ lit '']'')"
  by (simp add: token_segment_def lit_def butlast_append)

lemma SYM_upper_alnum: "list_all upper_alnum (lit ''SYM'')"
  by (simp add: lit_def upper_alnum_def)

lemma fallback_unnamed: "ud_name ud ch = None \<Longrightarrow> fallback ud ch = Inr [ch]"
  by (simp add: fallback_def)

lemma fallback_named:
  assumes wf: "ucd_wf ud" and nm: "ud_name ud ch = Some name"
  shows "\<exists>seg. fallback ud ch = Inr seg \<and> token_segment seg"
proof -
  from ucd_wf_name [OF wf nm] have nc: "list_all name_char name"
    and ex: "\<exists>x \<in> set name. x \<noteq> 32" by simp_all
  from ex nc have "\<not> list_all isspace name"
    by (auto simp: list_all_iff dest: name_char_not_space)
  with split_eq_Nil have "split name \<noteq> []" by blast
  then obtain w ws where sp: "split name = w # ws" by (cases "split name") auto
  from split_first_word [OF sp] nc have "\<forall>x \<in> set w. name_char x"
    by (auto simp: list_all_iff)
  then have tok: "list_all upper_alnum (upper (filter isalnum w))"
    by (rule upper_alnum_token)
  define token where "token = (if upper (filter isalnum w) = [] then lit ''SYM'' else upper (filter isalnum w))"
  have t1: "token \<noteq> []" by (simp add: token_def lit_def)
  have t2: "list_all upper_alnum token" using tok SYM_upper_alnum by (simp add: token_def)
  have "fallback ud ch = Inr (lit ''['' @ token @ lit '']'')"
    by (simp add: fallback_def nm sp token_def Let_def)
  with token_segment_brackets [OF t1 t2] show ?thesis by simp
qed

lemma token_segment_chars: "token_segment seg \<Longrightarrow> x \<in> set seg \<Longrightarrow> x < 128"
proof -
  assume ts: "token_segment seg" and x: "x \<in> set seg"
  from ts obtain b r where seg: "seg = b # r" and b: "b = 91" and r: "r \<noteq> []"
    and l: "last r = 93" and u: "list_all upper_alnum (butlast r)"
    by (cases seg) (auto simp: token_segment_def)
  from r have "r = butlast r @ [last r]" by simp
  then have "set r = set (butlast r @ [last r])" by simp
  then have "set r = set (butlast r) \<union> {last r}" by (simp only: set_append list.set)
  with x seg b l u show ?thesis
    by (auto simp: list_all_iff upper_alnum_def)
qed

lemma fallback_total: "ucd_wf ud \<Longrightarrow> \<exists>seg. fallback ud ch = Inr seg"
  using fallback_named fallback_unnamed by (cases "ud_name ud ch") blast+

lemma fallback_chars:
  assumes "ucd_wf ud" "fallback ud ch = Inr seg" "x \<in> set seg"
  shows "x < 128 \<or> (x = ch \<and> ud_name ud ch = None)"
proof (cases "ud_name ud ch")
  case None
  with assms fallback_unnamed [OF None] show ?thesis by auto
next
  case (Some name)
  from fallback_named [OF assms(1) Some] assms(2,3) token_segment_chars show ?thesis by auto
qed

lemma small_settled: "x < 128 \<Longrightarrow> settled ud x"
  by (auto simp: settled_def dest: pictographic_large)

lemma fallback_pass_total: "ucd_wf ud \<Longrightarrow> \<exists>r. fallback_pass ud s = Inr r"
proof (induction s)
  case Nil
  then show ?case by simp
next
  case (Cons ch rest)
  then obtain r where r: "fallback_pass ud rest = Inr r" by auto
  from fallback_total [OF Cons.prems] obtain seg where "fallback ud ch = Inr seg" by blast
  with r show ?case by simp
qed

lemma fallback_pass_settled:
  "ucd_wf ud \<Longrightarrow> 0xFE0F \<notin> set s \<Longrightarrow> fallback_pass ud s = Inr r \<Longrightarrow> \<forall>x \<in> set r. settled ud x"
proof (induction s arbitrary: r)
  case Nil
  then show ?case by simp
next
  case (Cons ch rest)
  from fallback_pass_total [OF Cons.prems(1)] obtain r' where r': "fallback_pass ud rest = Inr r'"
    by blast
  from Cons.IH [OF Cons.prems(1) _ r'] Cons.prems(2) have IH: "\<forall>x \<in> set r'. settled ud x" by simp
  show ?case
  proof (cases "pictographic ch")
    case True
    from fallback_total [OF Cons.prems(1)] obtain seg where seg: "fallback ud ch = Inr seg" by blast
    have "\<forall>x \<in> set seg. settled ud x"
    proof
      fix x assume "x \<in> set seg"
      from fallback_chars [OF Cons.prems(1) seg this] Cons.prems(2) show "settled ud x"
        by (auto simp: small_settled) (simp add: settled_def)
    qed
    with True seg r' IH Cons.prems(3) show ?thesis by auto
  next
    case False
    with Cons.prems(2) have "settled ud ch" by (simp add: settled_def)
    with False r' IH Cons.prems(3) show ?thesis by auto
  qed
qed

lemma settled_fixed: "\<forall>x \<in> set s. settled ud x \<Longrightarrow> transform_simple ud s = Inr s"
proof -
  assume a: "\<forall>x \<in> set s. settled ud x"
  then have f: "filter (\<lambda>c. [c] \<notin> set REMOVE_CHARS) s = s"
    by (simp add: REMOVE_CHARS_def settled_def)
  from a have "fallback_pass ud s = Inr s"
    by (induction s) (auto simp: settled_def fallback_unnamed)
  with f show ?thesis by (simp add: transform_simple_def)
qed

lemma transform_simple_settled:
  assumes "ucd_wf ud"
  shows "\<exists>r. transform_simple ud s = Inr r \<and> (\<forall>x \<in> set r. settled ud x)"
proof -
  let ?s = "filter (\<lambda>c. [c] \<notin> set REMOVE_CHARS) s"
  from fallback_pass_total [OF assms] obtain r where r: "fallback_pass ud ?s = Inr r" by blast
  have "0xFE0F \<notin> set ?s" by (simp add: REMOVE_CHARS_def)
  from fallback_pass_settled [OF assms this r] r show ?thesis
    by (simp add: transform_simple_def)
qed

lemma ucd_excerpt_wf: "ucd_wf ucd_excerpt"
  by (simp add: ucd_wf_def ucd_excerpt_def lit_def name_char_def)

lemma split_Nil: "split [] = []"
  by (subst split.simps) simp

lemma split_Cons:
  "split (c # cs) =
     (if isspace c then split cs
      else takeWhile (\<lambda>x. \<not> isspace x) (c # cs) # split (dropWhile (\<lambda>x. \<not> isspace x) cs))"
  by (subst split.simps, subst (2) split.simps) simp

lemmas eval_simps = split_Nil split_Cons isspace_def isalnum_def upper_def lit_def
  fallback_def ud_name_def pictographic_def transform_simple_def REMOVE_CHARS_def
  replace_in_text_simple

lemma split_ROCKET: "split (lit ''ROCKET'') = [lit ''ROCKET'']"
  by (simp add: eval_simps)

lemma fallback_ROCKET:
  "ud_name ud 0x1F680 = Some (lit ''ROCKET'') \<Longrightarrow> fallback ud 0x1F680 = Inr (lit ''[ROCKET]'')"
  by (simp add: fallback_def split_ROCKET) (simp add: lit_def upper_def isalnum_def)



lemma contains_single: "c \<in> set s \<Longrightarrow> contains s [c]"
  by (induction s) auto

section \<open>Lemmas about the walker\<close>

lemma sample_wf: "ucd_wf (unicodedata sample_runtime)"
  by (simp add: sample_runtime_def ucd_excerpt_wf)

lemmas path_eval = join_def splitext_def rfind_def splitext_loop.simps lit_def Let_def
  relpath_def

lemma walk_files_append:
  "walk_files R ROOT root (a @ b) st =
     (case walk_files R ROOT root a st of
        Inl x \<Rightarrow> Inl x
      | Inr st' \<Rightarrow> walk_files R ROOT root b st')"
  by (induction a arbitrary: st) (auto split: sum.splits)

lemma process_file_skip:
  "looks_text (str_lower R) path (disk st i) \<Longrightarrow> read_text R (disk st i) = Inl e \<Longrightarrow>
   process_file R ROOT path i st = Inr st"
  by (simp add: process_file_def)

lemma process_file_read:
  assumes "ucd_wf (unicodedata R)"
    and "looks_text (str_lower R) path (disk st i)" and "read_text R (disk st i) = Inr t"
  shows "\<exists>new_text. replace_in_text (unicodedata R) t = Inr new_text
    \<and> (new_text = t \<longrightarrow>
         process_file R ROOT path i st = Inr (st\<lparr>scanned := scanned st + 1\<rparr>))
    \<and> (new_text \<noteq> t \<and> writable (disk st i) \<longrightarrow>
         process_file R ROOT path i st =
           Inr (st\<lparr>scanned := scanned st + 1,
                  disk := (disk st)(i := (disk st i)\<lparr>content := utf8_encode R new_text\<rparr>),
                  changed := changed st + 1,
                  stdout := stdout st @ [lit ''Rewrote: '' @ relpath path ROOT]\<rparr>))
    \<and> (new_text \<noteq> t \<and> \<not> writable (disk st i) \<longrightarrow>
         process_file R ROOT path i st = Inl (OSError, st\<lparr>scanned := scanned st + 1\<rparr>))"
proof -
  from transform_simple_settled [OF assms(1), of t] obtain new_text
    where n: "replace_in_text (unicodedata R) t = Inr new_text"
    by (auto simp: replace_in_text_simple)
  show ?thesis
    using n assms(2,3) by (auto simp: process_file_def write_text_def Let_def)
qed

lemma walk_visited: "walk R ROOT root t st = walk R ROOT root (visited t) st"
  and walk_dirs_visited: "walk_dirs R ROOT root ds st = walk_dirs R ROOT root (visited_dirs ds) st"
proof (induction R ROOT root t st and R ROOT root ds st rule: walk_walk_dirs.induct)
  case (1 R ROOT root fs ds st)
  then show ?case by (auto split: sum.splits)
next
  case (2 R ROOT root st)
  show ?case by simp
next
  case (3 R ROOT root d sub ds st)
  then show ?case by (auto split: sum.splits)
qed

lemma process_file_frame:
  "j \<noteq> i \<Longrightarrow> disk (final_state (process_file R ROOT path i st)) j = disk st j"
  by (auto simp: process_file_def final_state_def write_text_def Let_def split: sum.splits)

lemma walk_files_frame:
  "j \<notin> snd ` set fs \<Longrightarrow> disk (final_state (walk_files R ROOT root fs st)) j = disk st j"
proof (induction fs arbitrary: st)
  case Nil
  then show ?case by (simp add: final_state_def)
next
  case (Cons a fs)
  obtain fn i where a: "a = (fn, i)" by (cases a)
  from Cons.prems a have ji: "j \<noteq> i" and jr: "j \<notin> snd ` set fs" by auto
  show ?case
  proof (cases "process_file R ROOT (join root fn) i st")
    case (Inl x)
    with process_file_frame [OF ji, of R ROOT "join root fn" st] a show ?thesis by simp
  next
    case (Inr st')
    with process_file_frame [OF ji, of R ROOT "join root fn" st] Cons.IH [OF jr, of st'] a
    show ?thesis by (simp add: final_state_def)
  qed
qed

lemma walk_frame:
  "j \<notin> set (inodes t) \<Longrightarrow> disk (final_state (walk R ROOT root t st)) j = disk st j"
  and walk_dirs_frame:
  "j \<notin> set (inodes_dirs ds) \<Longrightarrow> disk (final_state (walk_dirs R ROOT root ds st)) j = disk st j"
proof (induction R ROOT root t st and R ROOT root ds st rule: walk_walk_dirs.induct)
  case (1 R ROOT root fs ds st)
  from "1.prems" have jf: "j \<notin> snd ` set fs" and jd: "j \<notin> set (inodes_dirs ds)" by auto
  show ?case
  proof (cases "walk_files R ROOT root fs st")
    case (Inl x)
    with walk_files_frame [OF jf, of R ROOT root st] show ?thesis by simp
  next
    case (Inr st')
    with walk_files_frame [OF jf, of R ROOT root st] "1.IH" [OF Inr jd]
    show ?thesis by (simp add: final_state_def)
  qed
next
  case (2 R ROOT root st)
  show ?case by (simp add: final_state_def)
next
  case (3 R ROOT root d sub ds st)
  from "3.prems" have js: "j \<notin> set (inodes sub)" and jd: "j \<notin> set (inodes_dirs ds)" by auto
  show ?case
  proof (cases "pruned d")
    case True
    with "3.IH"(1) [OF True jd] show ?thesis by simp
  next
    case False
    show ?thesis
    proof (cases "walk R ROOT (join root d) sub st")
      case (Inl x)
      with False "3.IH"(2) [OF False js] show ?thesis by simp
    next
      case (Inr st')
      with False "3.IH"(2) [OF False js] "3.IH"(3) [OF False Inr jd]
      show ?thesis by (simp add: final_state_def)
    qed
  qed
qed


lemma looks_md:
  "looks_text (str_lower sample_runtime) (join (lit ''/repo'') (lit ''README.md'')) f"
  "looks_text (str_lower sample_runtime) (join (lit ''/repo'') (lit ''a.md'')) f"
  by (simp_all add: looks_text_def sample_runtime_def ascii_lower_def TEXT_EXTS_def path_eval)

lemma looks_icon:
  "looks_text (str_lower sample_runtime) (join (lit ''/repo'') (lit ''icon.bin''))
     (sample_file [0xFF, 0xFE])"
  by (simp add: looks_text_def sample_runtime_def ascii_lower_def TEXT_EXTS_def bin_exts_def
      read_bytes_def sample_file_def path_eval)

lemma looks_a:
  "looks_text (str_lower sample_runtime) (join (join (lit ''/repo'') (lit ''docs'')) (lit ''a.txt'')) f"
  by (simp add: looks_text_def sample_runtime_def ascii_lower_def TEXT_EXTS_def path_eval)

lemma read_rocket:
  "readable f \<Longrightarrow> content f = [0x47, 0x6F, 0x20, 0xF0, 0x9F, 0x9A, 0x80] \<Longrightarrow>
   read_text sample_runtime f = Inr (lit ''Go '' @ [0x1F680])"
  by (simp add: read_text_def sample_runtime_def text_decode_def cont_def lit_def)

lemma read_check:
  "read_text sample_runtime (sample_file [0xE2, 0x9C, 0x85]) = Inr [0x2705]"
  by (simp add: read_text_def sample_runtime_def sample_file_def text_decode_def cont_def)

lemma read_icon: "read_text sample_runtime (sample_file [0xFF, 0xFE]) = Inl UnicodeDecodeError"
  by (simp add: read_text_def sample_runtime_def sample_file_def text_decode_def)

lemma read_a: "read_text sample_runtime (sample_file [0x6F, 0x6B]) = Inr (lit ''ok'')"
  by (simp add: read_text_def sample_runtime_def sample_file_def text_decode_def lit_def)

lemma tr_rocket:
  "replace_in_text (unicodedata sample_runtime) (lit ''Go '' @ [0x1F680]) = Inr (lit ''Go [ROCKET]'')"
  by (simp add: eval_simps ucd_excerpt_def sample_runtime_def)

lemma tr_check:
  "replace_in_text (unicodedata sample_runtime) [0x2705] = Inr (lit ''[WHITE]'')"
  by (simp add: eval_simps ucd_excerpt_def sample_runtime_def)

lemma tr_a: "replace_in_text (unicodedata sample_runtime) (lit ''ok'') = Inr (lit ''ok'')"
  by (simp add: eval_simps ucd_excerpt_def sample_runtime_def)

lemma enc_rocket:
  "utf8_encode sample_runtime (lit ''Go [ROCKET]'') =
     [0x47, 0x6F, 0x20, 0x5B, 0x52, 0x4F, 0x43, 0x4B, 0x45, 0x54, 0x5D]"
  by (simp add: sample_runtime_def text_encode_def encode_utf8_def lit_def)

lemma enc_check:
  "utf8_encode sample_runtime (lit ''[WHITE]'') = [0x5B, 0x57, 0x48, 0x49, 0x54, 0x45, 0x5D]"
  by (simp add: sample_runtime_def text_encode_def encode_utf8_def lit_def)

lemma rel_md:
  "relpath (join (lit ''/repo'') (lit ''README.md'')) (lit ''/repo'') = lit ''README.md''"
  "relpath (join (lit ''/repo'') (lit ''a.md'')) (lit ''/repo'') = lit ''a.md''"
  by (simp_all add: path_eval)

lemma pf_readme:
  assumes "disk st i = sample_file [0x47, 0x6F, 0x20, 0xF0, 0x9F, 0x9A, 0x80]"
  shows "process_file sample_runtime (lit ''/repo'') (join (lit ''/repo'') (lit ''README.md'')) i st
   = Inr (st\<lparr>scanned := scanned st + 1,
            disk := (disk st)(i := sample_file
                      [0x47, 0x6F, 0x20, 0x5B, 0x52, 0x4F, 0x43, 0x4B, 0x45, 0x54, 0x5D]),
            changed := changed st + 1,
            stdout := stdout st @ [lit ''Rewrote: README.md'']\<rparr>)"
proof -
  have ne: "lit ''Go [ROCKET]'' \<noteq> lit ''Go '' @ [0x1F680]" by (simp add: lit_def)
  have r: "read_text sample_runtime (disk st i) = Inr (lit ''Go '' @ [0x1F680])"
    by (rule read_rocket) (simp_all add: assms sample_file_def)
  have w: "writable (disk st i)" by (simp add: assms sample_file_def)
  from process_file_read [OF sample_wf looks_md(1) r, of "lit ''/repo''"] tr_rocket ne w
  show ?thesis by (simp add: enc_rocket rel_md assms sample_file_def) (simp add: lit_def)
qed

lemma pf_check:
  assumes "disk st i = sample_file [0xE2, 0x9C, 0x85]"
  shows "process_file sample_runtime (lit ''/repo'') (join (lit ''/repo'') (lit ''a.md'')) i st
   = Inr (st\<lparr>scanned := scanned st + 1,
            disk := (disk st)(i := sample_file [0x5B, 0x57, 0x48, 0x49, 0x54, 0x45, 0x5D]),
            changed := changed st + 1,
            stdout := stdout st @ [lit ''Rewrote: a.md'']\<rparr>)"
proof -
  have ne: "lit ''[WHITE]'' \<noteq> [0x2705]" by (simp add: lit_def)
  have r: "read_text sample_runtime (disk st i) = Inr [0x2705]"
    by (simp add: assms read_check)
  have w: "writable (disk st i)" by (simp add: assms sample_file_def)
  from process_file_read [OF sample_wf looks_md(2) r, of "lit ''/repo''"] tr_check ne w
  show ?thesis by (simp add: enc_check rel_md assms sample_file_def) (simp add: lit_def)
qed

lemma pf_a:
  assumes "disk st i = sample_file [0x6F, 0x6B]"
  shows "process_file sample_runtime (lit ''/repo'')
     (join (join (lit ''/repo'') (lit ''docs'')) (lit ''a.txt'')) i st
   = Inr (st\<lparr>scanned := scanned st + 1\<rparr>)"
proof -
  have r: "read_text sample_runtime (disk st i) = Inr (lit ''ok'')" by (simp add: assms read_a)
  from process_file_read [OF sample_wf looks_a r, of "lit ''/repo''"] tr_a show ?thesis by simp
qed

lemma pf_icon:
  assumes "disk st i = sample_file [0xFF, 0xFE]"
  shows "process_file sample_runtime (lit ''/repo'') (join (lit ''/repo'') (lit ''icon.bin'')) i st
    = Inr st"
  by (rule process_file_skip [where e = UnicodeDecodeError]) (simp_all add: assms looks_icon read_icon)

lemma pruned_node_modules: "pruned (lit ''node_modules'')"
  by (simp add: pruned_def EXCLUDE_DIRS_def lit_def)

lemma not_pruned_docs: "\<not> pruned (lit ''docs'')"
  by (simp add: pruned_def EXCLUDE_DIRS_def lit_def)

lemma walk_files_sample:
  "walk_files sample_runtime (lit ''/repo'') (lit ''/repo'') [(lit ''README.md'', 1)]
     \<lparr>disk = sample_disk, changed = 0, scanned = 0, stdout = []\<rparr>
   = Inr \<lparr>disk = sample_disk(1 := sample_file
                     [0x47, 0x6F, 0x20, 0x5B, 0x52, 0x4F, 0x43, 0x4B, 0x45, 0x54, 0x5D]),
          changed = 1, scanned = 1, stdout = [lit ''Rewrote: README.md'']\<rparr>"
  by (simp add: pf_readme sample_disk_def)

lemma walk_sample:
  "walk sample_runtime (lit ''/repo'') (lit ''/repo'') sample_tree
     \<lparr>disk = sample_disk, changed = 0, scanned = 0, stdout = []\<rparr>
   = Inr \<lparr>disk = sample_disk(1 := sample_file
                     [0x47, 0x6F, 0x20, 0x5B, 0x52, 0x4F, 0x43, 0x4B, 0x45, 0x54, 0x5D]),
          changed = 1, scanned = 2, stdout = [lit ''Rewrote: README.md'']\<rparr>"
  by (simp add: sample_tree_def pf_readme pf_icon pf_a sample_disk_def
      pruned_node_modules not_pruned_docs)

lemma walk_linked:
  "walk sample_runtime (lit ''/repo'') (lit ''/repo'') linked_tree
     \<lparr>disk = linked_disk, changed = 0, scanned = 0, stdout = []\<rparr>
   = Inr \<lparr>disk = linked_disk(1 := sample_file [0x5B, 0x57, 0x48, 0x49, 0x54, 0x45, 0x5D]),
          changed = 1, scanned = 1, stdout = [lit ''Rewrote: a.md'']\<rparr>"
  by (simp add: linked_tree_def pf_check linked_disk_def pruned_node_modules)

section \<open>Claims about the transformer\<close>




text \<open>
  Claim C2: the transformer is total and idempotent. For every text \<open>T\<close> it returns a
  text \<open>r\<close> (no exception escapes), and transforming \<open>r\<close> again returns \<open>r\<close>. The name
  table is any table of well-formed Unicode names.
\<close>

theorem transform_idempotent:
  assumes "ucd_wf ud"
  shows "\<exists>r. replace_in_text ud T = Inr r \<and> replace_in_text ud r = Inr r"
proof -
  from transform_simple_settled [OF assms, of T] obtain r
    where r: "transform_simple ud T = Inr r" and st: "\<forall>x \<in> set r. settled ud x" by blast
  from settled_fixed [OF st] r show ?thesis by (simp add: replace_in_text_simple)
qed

theorem transform_idempotent_witness:
  "ucd_wf ucd_excerpt \<and>
   (\<exists>r. replace_in_text ucd_excerpt [0x1F680, 0xFE0F, 0x61] = Inr r
        \<and> replace_in_text ucd_excerpt r = Inr r)
   \<and> replace_in_text ucd_excerpt [0x1F680, 0xFE0F, 0x61] = Inr (lit ''[ROCKET]a'')"
proof -
  have e: "replace_in_text ucd_excerpt [0x1F680, 0xFE0F, 0x61] = Inr (lit ''[ROCKET]a'')"
    by (simp add: eval_simps ucd_excerpt_def)
  from transform_idempotent [OF ucd_excerpt_wf, of "[0x1F680, 0xFE0F, 0x61]"] e ucd_excerpt_wf
  show ?thesis by simp
qed

text \<open>
  Claim C3: the Removal Set is the one character \<open>U+FE0F\<close>, and for every text \<open>T\<close> the
  transformer returns a text in which \<open>U+FE0F\<close> does not occur.
\<close>

theorem transform_removes_selector:
  assumes "ucd_wf ud"
  shows "REMOVE_CHARS = [[0xFE0F]] \<and> (\<exists>r. replace_in_text ud T = Inr r \<and> 0xFE0F \<notin> set r)"
proof -
  from transform_simple_settled [OF assms, of T] obtain r
    where r: "transform_simple ud T = Inr r" and st: "\<forall>x \<in> set r. settled ud x" by blast
  from st have "0xFE0F \<notin> set r" by (auto simp: settled_def)
  with r show ?thesis by (simp add: replace_in_text_simple REMOVE_CHARS_def)
qed

theorem transform_removes_selector_witness:
  "ucd_wf ucd_excerpt \<and>
   (\<exists>r. replace_in_text ucd_excerpt [0xFE0F, 0x2122, 0xFE0F] = Inr r \<and> 0xFE0F \<notin> set r)
   \<and> replace_in_text ucd_excerpt [0xFE0F, 0x2122, 0xFE0F] = Inr (lit ''[TRADE]'')"
proof -
  have e: "replace_in_text ucd_excerpt [0xFE0F, 0x2122, 0xFE0F] = Inr (lit ''[TRADE]'')"
    by (simp add: eval_simps ucd_excerpt_def)
  from transform_removes_selector [OF ucd_excerpt_wf, of "[0xFE0F, 0x2122, 0xFE0F]"] e ucd_excerpt_wf
  show ?thesis by simp
qed

text \<open>
  Claim C4: \<open>U+1F680\<close> is not a key of \<^verbatim>\<open>MAP\<close>, and with the Unicode name of \<open>U+1F680\<close>,
  \<open>ROCKET\<close>, the text of the two characters \<open>U+1F680\<close>, \<open>U+FE0F\<close> is transformed to
  exactly \<open>[ROCKET]\<close>, in which no variation selector occurs.
\<close>

theorem rocket_example:
  assumes "ud_name ud 0x1F680 = Some (lit ''ROCKET'')"
  shows "map_of MAP [0x1F680] = None
    \<and> replace_in_text ud [0x1F680, 0xFE0F] = Inr (lit ''[ROCKET]'')
    \<and> 0xFE0F \<notin> set (lit ''[ROCKET]'')"
proof -
  have p: "pictographic 0x1F680" by (simp add: pictographic_def)
  have "transform_simple ud [0x1F680, 0xFE0F] = Inr (lit ''[ROCKET]'')"
    using p fallback_ROCKET [OF assms] by (simp add: transform_simple_def REMOVE_CHARS_def)
  moreover have "0xFE0F \<notin> set (lit ''[ROCKET]'')" by (simp add: lit_def)
  ultimately show ?thesis using pictographic_not_key [OF p]
    by (simp add: replace_in_text_simple)
qed

theorem rocket_example_witness:
  "ud_name ucd_excerpt 0x1F680 = Some (lit ''ROCKET'')
   \<and> replace_in_text ucd_excerpt [0x1F680, 0xFE0F] = Inr (lit ''[ROCKET]'')"
proof -
  have n: "ud_name ucd_excerpt 0x1F680 = Some (lit ''ROCKET'')"
    by (simp add: ud_name_def ucd_excerpt_def)
  from rocket_example [OF n] n show ?thesis by simp
qed

text \<open>
  Claim C9: a text in which no string of the Removal Set occurs, no key of \<^verbatim>\<open>MAP\<close>
  occurs, and no character is in the pictographic ranges, is returned as it is.
\<close>

theorem pass_through:
  assumes "\<forall>rc \<in> set REMOVE_CHARS. \<not> contains T rc"
    and "\<forall>(k, v) \<in> set MAP. \<not> contains T k"
    and "\<forall>c \<in> set T. \<not> pictographic c"
  shows "replace_in_text ud T = Inr T"
proof -
  have "\<forall>x \<in> set T. settled ud x"
  proof
    fix x assume x: "x \<in> set T"
    from assms(1) have "\<not> contains T [0xFE0F]" by (simp add: REMOVE_CHARS_def)
    with contains_single [of "0xFE0F" T] x have "x \<noteq> 0xFE0F" by auto
    with assms(3) x show "settled ud x" by (simp add: settled_def)
  qed
  from settled_fixed [OF this] show ?thesis by (simp add: replace_in_text_simple)
qed

theorem pass_through_witness:
  "list_all (\<lambda>rc. \<not> contains (lit ''abc 12'') rc) REMOVE_CHARS
   \<and> list_all (\<lambda>(k, v). \<not> contains (lit ''abc 12'') k) MAP
   \<and> list_all (\<lambda>c. \<not> pictographic c) (lit ''abc 12'')
   \<and> replace_in_text ucd_excerpt (lit ''abc 12'') = Inr (lit ''abc 12'')"
proof -
  have a: "\<forall>rc \<in> set REMOVE_CHARS. \<not> contains (lit ''abc 12'') rc"
    by (simp add: REMOVE_CHARS_def lit_def)
  have "list_all (\<lambda>(k, v). \<not> contains (lit ''abc 12'') (lit k)) MAP_literal"
    by (simp add: MAP_literal_def lit_def)
  then have b: "\<forall>(k, v) \<in> set MAP. \<not> contains (lit ''abc 12'') k"
    using dict_subset [of "map (\<lambda>(k, v). (lit k, lit v)) MAP_literal"]
    by (auto simp: MAP_def list_all_iff)
  have c: "\<forall>c \<in> set (lit ''abc 12''). \<not> pictographic c"
    by (simp add: lit_def pictographic_def)
  from pass_through [OF a b c, of ucd_excerpt] a b c show ?thesis
    by (simp add: list_all_iff)
qed

text \<open>
  Claim C10: every item of \<^verbatim>\<open>MAP\<close> has a value equal to its key, so the substitution pass
  returns the text it is given and the table lookup in the loop gives back the
  character; and for every text the transformer agrees with \<open>transform_simple\<close>, which
  deletes the Removal Set characters and applies the fallback to the characters of the
  pictographic ranges.
\<close>

theorem MAP_identity_refinement:
  "list_all (\<lambda>(k, v). v = k) MAP
   \<and> fold (\<lambda>(k, v) t. if contains t k then replace t k v else t) MAP T = T
   \<and> (case map_of MAP [ch] of None \<Rightarrow> True | Some v \<Rightarrow> v = [ch])
   \<and> replace_in_text ud T = transform_simple ud T"
proof -
  have "list_all (\<lambda>(k, v). v = k) MAP" by (auto simp: list_all_iff dest: MAP_id)
  moreover have "case map_of MAP [ch] of None \<Rightarrow> True | Some v \<Rightarrow> v = [ch]"
    by (auto split: option.splits dest: MAP_lookup)
  ultimately show ?thesis by (simp add: MAP_pass replace_in_text_simple)
qed

theorem MAP_identity_refinement_witness:
  "replace_in_text ucd_excerpt (lit ''a -> '' @ [0x2192, 0xFE0F]) =
     transform_simple ucd_excerpt (lit ''a -> '' @ [0x2192, 0xFE0F])
   \<and> transform_simple ucd_excerpt (lit ''a -> '' @ [0x2192, 0xFE0F]) = Inr (lit ''a -> [RIGHTWARDS]'')
   \<and> map_of MAP (lit ''o'') = Some (lit ''o'')"
proof -
  have e: "transform_simple ucd_excerpt (lit ''a -> '' @ [0x2192, 0xFE0F]) = Inr (lit ''a -> [RIGHTWARDS]'')"
    by (simp add: split_Nil split_Cons isspace_def isalnum_def upper_def lit_def
      fallback_def ud_name_def pictographic_def transform_simple_def REMOVE_CHARS_def ucd_excerpt_def)
  have "(lit ''o'', lit ''o'') \<in> set (map (\<lambda>(k, v). (lit k, lit v)) MAP_literal)"
    by (simp add: MAP_literal_def lit_def)
  then have "lit ''o'' \<in> fst ` set (map (\<lambda>(k, v). (lit k, lit v)) MAP_literal)"
    by (rule image_eqI [rotated]) simp
  then have "lit ''o'' \<in> fst ` set MAP" by (simp only: MAP_def dict_keys)
  then obtain v where v: "map_of MAP [0x6F] = Some v"
    by (cases "map_of MAP [0x6F]") (auto simp: map_of_eq_None_iff lit_def)
  from MAP_identity_refinement [of "lit ''a -> '' @ [0x2192, 0xFE0F]" "0x6F" ucd_excerpt] e v
  show ?thesis by (simp add: lit_def)
qed

section \<open>Claims about the classifier and the walker\<close>

text \<open>
  Claim C5: \<^verbatim>\<open>looks_text\<close> is true when the lowercased extension of the path is in
  \<^verbatim>\<open>TEXT_EXTS\<close>; otherwise false when it is in \<^verbatim>\<open>bin_exts\<close>; otherwise it reads a chunk,
  the first 2048 bytes of the file at most, and is false if the read fails or the chunk
  holds a NUL byte, and true in every remaining case.
\<close>

theorem looks_text_classifier:
  "(lower (snd (splitext path)) \<in> set TEXT_EXTS \<longrightarrow> looks_text lower path f)
   \<and> (lower (snd (splitext path)) \<notin> set TEXT_EXTS \<and> lower (snd (splitext path)) \<in> set bin_exts
        \<longrightarrow> \<not> looks_text lower path f)
   \<and> (lower (snd (splitext path)) \<notin> set TEXT_EXTS \<and> lower (snd (splitext path)) \<notin> set bin_exts
        \<longrightarrow> (case read_bytes f 2048 of
               Inl e \<Rightarrow> \<not> looks_text lower path f
             | Inr chunk \<Rightarrow> chunk = take 2048 (content f) \<and> length chunk \<le> 2048
                  \<and> looks_text lower path f = (0 \<notin> set chunk)))"
  by (auto simp: looks_text_def read_bytes_def Let_def)

theorem looks_text_classifier_witness:
  "looks_text ascii_lower (lit ''src/App.TSX'') (sample_file [0, 1])
   \<and> \<not> looks_text ascii_lower (lit ''logo.PNG'') (sample_file [1, 2])
   \<and> looks_text ascii_lower (lit ''Makefile'') (sample_file (replicate 2048 1 @ [0]))
   \<and> \<not> looks_text ascii_lower (lit ''Makefile'') (sample_file [1, 0])
   \<and> \<not> looks_text ascii_lower (lit ''Makefile'') ((sample_file [1])\<lparr>readable := False\<rparr>)"
proof -
  have e1: "ascii_lower (snd (splitext (lit ''src/App.TSX''))) \<in> set TEXT_EXTS"
    by (simp add: ascii_lower_def TEXT_EXTS_def path_eval)
  have e2: "ascii_lower (snd (splitext (lit ''logo.PNG''))) \<notin> set TEXT_EXTS
      \<and> ascii_lower (snd (splitext (lit ''logo.PNG''))) \<in> set bin_exts"
    by (simp add: ascii_lower_def TEXT_EXTS_def bin_exts_def path_eval)
  have e3: "ascii_lower (snd (splitext (lit ''Makefile''))) \<notin> set TEXT_EXTS
      \<and> ascii_lower (snd (splitext (lit ''Makefile''))) \<notin> set bin_exts"
    by (simp add: ascii_lower_def TEXT_EXTS_def bin_exts_def path_eval)
  have r1: "read_bytes (sample_file (replicate 2048 1 @ [0])) 2048 = Inr (replicate 2048 1)"
    by (simp add: read_bytes_def sample_file_def)
  have r2: "read_bytes (sample_file [1, 0]) 2048 = Inr [1, 0]"
    by (simp add: read_bytes_def sample_file_def)
  have r3: "read_bytes ((sample_file [1])\<lparr>readable := False\<rparr>) 2048 = Inl OSError"
    by (simp add: read_bytes_def sample_file_def)
  from looks_text_classifier [of ascii_lower "lit ''src/App.TSX''" "sample_file [0, 1]"] e1
  have c1: "looks_text ascii_lower (lit ''src/App.TSX'') (sample_file [0, 1])" by blast
  from looks_text_classifier [of ascii_lower "lit ''logo.PNG''" "sample_file [1, 2]"] e2
  have c2: "\<not> looks_text ascii_lower (lit ''logo.PNG'') (sample_file [1, 2])" by blast
  from looks_text_classifier [of ascii_lower "lit ''Makefile''" "sample_file (replicate 2048 1 @ [0])"] e3 r1
  have c3: "looks_text ascii_lower (lit ''Makefile'') (sample_file (replicate 2048 1 @ [0]))" by simp
  from looks_text_classifier [of ascii_lower "lit ''Makefile''" "sample_file [1, 0]"] e3 r2
  have c4: "\<not> looks_text ascii_lower (lit ''Makefile'') (sample_file [1, 0])" by simp
  from looks_text_classifier [of ascii_lower "lit ''Makefile''" "(sample_file [1])\<lparr>readable := False\<rparr>"] e3 r3
  have c5: "\<not> looks_text ascii_lower (lit ''Makefile'') ((sample_file [1])\<lparr>readable := False\<rparr>)" by simp
  from c1 c2 c3 c4 c5 show ?thesis by blast
qed

text \<open>
  Claim C6: when the run over the files of a directory reaches an eligible file that
  cannot be read as strict UTF-8 text, the body of the loop leaves the disk, both
  counters and the output as they are and raises nothing; the run over the files of the
  directory is the run without that file.
\<close>

theorem undecodable_file_skipped:
  assumes "walk_files R ROOT root before st = Inr st1"
    and "looks_text (str_lower R) (join root fn) (disk st1 i)"
    and "read_text R (disk st1 i) = Inl e"
  shows "process_file R ROOT (join root fn) i st1 = Inr st1
    \<and> walk_files R ROOT root (before @ (fn, i) # after) st =
        walk_files R ROOT root (before @ after) st"
proof -
  note p = process_file_skip [OF assms(2,3), of ROOT]
  have "walk_files R ROOT root (before @ (fn, i) # after) st =
        walk_files R ROOT root (before @ after) st"
    using assms(1) p by (simp add: walk_files_append)
  with p show ?thesis by simp
qed

theorem undecodable_file_skipped_witness:
  "walk_files sample_runtime (lit ''/repo'') (lit ''/repo'') [(lit ''README.md'', 1)]
     \<lparr>disk = sample_disk, changed = 0, scanned = 0, stdout = []\<rparr>
   = Inr \<lparr>disk = sample_disk(1 := sample_file
                     [0x47, 0x6F, 0x20, 0x5B, 0x52, 0x4F, 0x43, 0x4B, 0x45, 0x54, 0x5D]),
          changed = 1, scanned = 1, stdout = [lit ''Rewrote: README.md'']\<rparr>
   \<and> looks_text (str_lower sample_runtime) (join (lit ''/repo'') (lit ''icon.bin'')) (sample_disk 2)
   \<and> read_text sample_runtime (sample_disk 2) = Inl UnicodeDecodeError
   \<and> walk_files sample_runtime (lit ''/repo'') (lit ''/repo'')
        [(lit ''README.md'', 1), (lit ''icon.bin'', 2)]
        \<lparr>disk = sample_disk, changed = 0, scanned = 0, stdout = []\<rparr>
      = Inr \<lparr>disk = sample_disk(1 := sample_file
                     [0x47, 0x6F, 0x20, 0x5B, 0x52, 0x4F, 0x43, 0x4B, 0x45, 0x54, 0x5D]),
          changed = 1, scanned = 1, stdout = [lit ''Rewrote: README.md'']\<rparr>"
proof -
  let ?st1 = "\<lparr>disk = sample_disk(1 := sample_file
                     [0x47, 0x6F, 0x20, 0x5B, 0x52, 0x4F, 0x43, 0x4B, 0x45, 0x54, 0x5D]),
          changed = 1, scanned = 1, stdout = [lit ''Rewrote: README.md'']\<rparr>"
  have d: "sample_disk 2 = sample_file [0xFF, 0xFE]" by (simp add: sample_disk_def)
  have l: "looks_text (str_lower sample_runtime) (join (lit ''/repo'') (lit ''icon.bin''))
      (disk ?st1 2)"
    by (simp add: d looks_icon)
  have r: "read_text sample_runtime (disk ?st1 2) = Inl UnicodeDecodeError"
    by (simp add: d read_icon)
  from undecodable_file_skipped [OF walk_files_sample l r, of "[]"] walk_files_sample l r d
  show ?thesis by simp
qed




text \<open>
  Claim C8, as the code has it. A subdirectory is pruned exactly when its name is in
  \<^verbatim>\<open>EXCLUDE_DIRS\<close> or starts with a dot, as \<open>node_modules\<close> is. The walk of a tree is the
  walk of the tree without its pruned subdirectories: the same disk, counters, output and
  outcome, so the names below a pruned directory are not read, not counted and not
  reported. And a file that has no name in the part of the tree that is walked is on the
  disk after the run as it was before, whether the run ends or is ended by an exception.
  A file below a pruned directory that has a second name outside (a hard link or a
  symbolic link) is not covered: it is rewritten through that name.
\<close>

theorem pruned_directories_untouched:
  "(pruned d \<longleftrightarrow> d \<in> set EXCLUDE_DIRS \<or> prefix (lit ''.'') d)
   \<and> pruned (lit ''node_modules'')
   \<and> walk R ROOT root t st = walk R ROOT root (visited t) st
   \<and> (i \<notin> set (inodes (visited t)) \<longrightarrow>
        disk (final_state (walk R ROOT root t st)) i = disk st i)"
  using walk_visited [of R ROOT root t st] walk_frame [of i "visited t" R ROOT root st]
    pruned_node_modules
  by (simp add: pruned_def)

theorem pruned_directories_untouched_witness:
  "skipped sample_tree = [([lit ''node_modules''], Dir [(lit ''x.md'', 3)] [])]
   \<and> inodes (visited sample_tree) = [1, 2, 4]
   \<and> walk sample_runtime (lit ''/repo'') (lit ''/repo'') sample_tree
       \<lparr>disk = sample_disk, changed = 0, scanned = 0, stdout = []\<rparr>
     = Inr \<lparr>disk = sample_disk(1 := sample_file
                     [0x47, 0x6F, 0x20, 0x5B, 0x52, 0x4F, 0x43, 0x4B, 0x45, 0x54, 0x5D]),
          changed = 1, scanned = 2, stdout = [lit ''Rewrote: README.md'']\<rparr>
   \<and> walk sample_runtime (lit ''/repo'') (lit ''/repo'') (visited sample_tree)
       \<lparr>disk = sample_disk, changed = 0, scanned = 0, stdout = []\<rparr>
     = Inr \<lparr>disk = sample_disk(1 := sample_file
                     [0x47, 0x6F, 0x20, 0x5B, 0x52, 0x4F, 0x43, 0x4B, 0x45, 0x54, 0x5D]),
          changed = 1, scanned = 2, stdout = [lit ''Rewrote: README.md'']\<rparr>
   \<and> disk (final_state (walk sample_runtime (lit ''/repo'') (lit ''/repo'') sample_tree
       \<lparr>disk = sample_disk, changed = 0, scanned = 0, stdout = []\<rparr>)) 3 = sample_disk 3"
proof -
  have k: "skipped sample_tree = [([lit ''node_modules''], Dir [(lit ''x.md'', 3)] [])]"
    by (simp add: sample_tree_def pruned_node_modules not_pruned_docs)
  have v: "inodes (visited sample_tree) = [1, 2, 4]"
    by (simp add: sample_tree_def pruned_node_modules not_pruned_docs)
  let ?s = "\<lparr>disk = sample_disk, changed = 0, scanned = 0, stdout = []\<rparr>"
  note th = pruned_directories_untouched [of "lit ''docs''" sample_runtime "lit ''/repo''"
      "lit ''/repo''" sample_tree ?s 3]
  from th have e: "walk sample_runtime (lit ''/repo'') (lit ''/repo'') (visited sample_tree) ?s
      = walk sample_runtime (lit ''/repo'') (lit ''/repo'') sample_tree ?s"
    by simp
  have n: "3 \<notin> set (inodes (visited sample_tree))" by (simp add: v)
  from th n have f: "disk (final_state (walk sample_runtime (lit ''/repo'') (lit ''/repo'')
      sample_tree ?s)) 3 = disk ?s 3"
    by blast
  from k v walk_sample e f show ?thesis by simp
qed

text \<open>
  Claim C8 as stated fails for a file with two names. \<open>node_modules/x.md\<close> lies in a
  pruned directory and is never read through that name, but it is the inode of \<open>a.md\<close>:
  the run rewrites \<open>a.md\<close>, and the content of \<open>node_modules/x.md\<close> on disk is changed
  from \<open>U+2705\<close> to \<open>[WHITE]\<close>.
\<close>

theorem pruned_hard_link_counterexample:
  "pruned (lit ''node_modules'')
   \<and> skipped linked_tree = [([lit ''node_modules''], Dir [(lit ''x.md'', 1)] [])]
   \<and> content (linked_disk 1) = [0xE2, 0x9C, 0x85]
   \<and> walk sample_runtime (lit ''/repo'') (lit ''/repo'') linked_tree
       \<lparr>disk = linked_disk, changed = 0, scanned = 0, stdout = []\<rparr>
     = Inr \<lparr>disk = linked_disk(1 := sample_file [0x5B, 0x57, 0x48, 0x49, 0x54, 0x45, 0x5D]),
          changed = 1, scanned = 1, stdout = [lit ''Rewrote: a.md'']\<rparr>
   \<and> content (disk (final_state (walk sample_runtime (lit ''/repo'') (lit ''/repo'') linked_tree
       \<lparr>disk = linked_disk, changed = 0, scanned = 0, stdout = []\<rparr>)) 1)
     = [0x5B, 0x57, 0x48, 0x49, 0x54, 0x45, 0x5D]"
proof -
  have k: "skipped linked_tree = [([lit ''node_modules''], Dir [(lit ''x.md'', 1)] [])]"
    by (simp add: linked_tree_def pruned_node_modules)
  have c: "content (linked_disk 1) = [0xE2, 0x9C, 0x85]"
    by (simp add: linked_disk_def sample_file_def)
  from pruned_node_modules k c walk_linked show ?thesis
    by (simp add: final_state_def sample_file_def)
qed

end
